theory Spec2Isabelle
  imports Complex_Main
begin

section \<open>Character-level RNN name generator (WEEK05/RNN-task.py)\<close>

text \<open>
  The notebook is embedded function by function. Python exceptions are values of
  \<open>error\<close>; a function that can raise returns \<open>error + 'a\<close> with \<open>Inl\<close> the
  exception. Token ids are natural numbers, cells of a batch matrix are integers (the
  \<open>pad\<close> argument of \<open>to_matrix\<close> is any Python integer), and float32 tensors are lists of
  reals: rounding is not modelled.
\<close>

subsection \<open>Exceptions\<close>

datatype error = ValueError | TypeError | KeyError | IndexError

text \<open>\<open>KeyError\<close> and \<open>IndexError\<close> are the subclasses of Python's \<open>LookupError\<close>.\<close>

fun is_LookupError :: "error \<Rightarrow> bool" where
  "is_LookupError KeyError = True"
| "is_LookupError IndexError = True"
| "is_LookupError ValueError = False"
| "is_LookupError TypeError = False"

subsection \<open>Corpus and vocabulary (lines 35-95)\<close>

definition start_token :: char where
  "start_token = CHR '' ''"

definition pad_token :: char where
  "pad_token = CHR ''#''"

text \<open>
  Line 44: every line of the file gets the start token in front. The argument is the
  list that \<open>f.read()[:-1].split('\n')\<close> yields.
\<close>

definition load_names :: "string list \<Rightarrow> string list" where
  "load_names file_lines = map (\<lambda>name. start_token # name) file_lines"

text \<open>Python's \<open>max\<close> over a sequence: \<open>ValueError\<close> on the empty one.\<close>

definition py_max :: "nat list \<Rightarrow> error + nat" where
  "py_max xs = (case xs of [] \<Rightarrow> Inl ValueError | x # ys \<Rightarrow> Inr (fold max ys x))"

text \<open>Line 58: \<open>MAX_LENGTH = max(map(len, names))\<close>.\<close>

definition MAX_LENGTH :: "string list \<Rightarrow> error + nat" where
  "MAX_LENGTH names = py_max (map length names)"

text \<open>
  Lines 72-74: \<open>tokens = list(set(''.join(names)))\<close>. The order in which Python lists
  the elements of a set is not fixed by the program, so \<open>tokens\<close> is any list without
  repetition that holds exactly the characters of the corpus.
\<close>

definition is_tokens :: "string list \<Rightarrow> string \<Rightarrow> bool" where
  "is_tokens names tokens = (distinct tokens \<and> set tokens = set (concat names))"

text \<open>Line 78: \<open>assert 50 < n_tokens < 60\<close>, with \<open>n_tokens = len(tokens)\<close>.\<close>

definition n_tokens_assert :: "string \<Rightarrow> bool" where
  "n_tokens_assert tokens = (50 < length tokens \<and> length tokens < 60)"

text \<open>
  Lines 91-93: the dictionary is filled by the loop
  \<open>for i in range(n_tokens): token_to_id[tokens[i]] = i\<close>.
\<close>

definition token_to_id :: "string \<Rightarrow> (char \<rightharpoonup> nat)" where
  "token_to_id tokens = fold (\<lambda>i d. d(tokens ! i \<mapsto> i)) [0..<length tokens] Map.empty"

subsection \<open>Batcher: \<open>to_matrix\<close> (lines 101-111)\<close>

text \<open>
  A two-dimensional numpy array: its shape is \<open>(length (rows m), ncols m)\<close>; the number
  of columns is kept apart because an array without rows still has one.
\<close>

record matrix =
  ncols :: nat
  rows :: "int list list"

text \<open>
  The assignment \<open>names_ix[i, :len(name_ix)] = name_ix\<close> of line 109, on one row. numpy
  first converts the right-hand side to the array's integer type, which raises
  \<open>TypeError\<close> on a \<open>None\<close> (what \<open>dict.get\<close> returns for a missing key), and then
  copies it into the slice, which raises \<open>ValueError\<close> when the shapes do not broadcast:
  the slice has \<open>min (len name_ix) (len row)\<close> cells, and a source of another length fits
  only when it has exactly one element (which an empty slice accepts, storing nothing).
\<close>

definition np_set_prefix :: "int list \<Rightarrow> nat option list \<Rightarrow> error + int list" where
  "np_set_prefix row name_ix =
     (if None \<in> set name_ix then Inl TypeError
      else if length name_ix \<le> length row
        then Inr (map (\<lambda>v. int (the v)) name_ix @ drop (length name_ix) row)
      else if length name_ix = 1 then Inr row
      else Inl ValueError)"

text \<open>The loop of lines 107-109 over the row indices, stopping at the first exception.\<close>

fun fill_rows :: "(char \<rightharpoonup> nat) \<Rightarrow> string list \<Rightarrow> nat list \<Rightarrow> int list list \<Rightarrow>
    error + int list list" where
  "fill_rows tok names [] names_ix = Inr names_ix"
| "fill_rows tok names (i # is) names_ix =
     (let name_ix = map tok (names ! i) in
      case np_set_prefix (names_ix ! i) name_ix of
        Inl e \<Rightarrow> Inl e
      | Inr row \<Rightarrow> fill_rows tok names is (names_ix[i := row]))"

text \<open>
  \<open>to_matrix(names, max_len, pad)\<close>. \<open>max_len\<close> is \<open>None\<close> or a Python integer. Line 104,
  \<open>max_len or max(map(len, names))\<close>, takes the maximum when \<open>max_len\<close> is \<open>None\<close> or
  \<open>0\<close> (both are false in Python). Line 105, \<open>np.zeros([len(names), max_len]) + pad\<close>,
  raises \<open>ValueError\<close> on a negative dimension.
\<close>

definition to_matrix :: "(char \<rightharpoonup> nat) \<Rightarrow> string list \<Rightarrow> int option \<Rightarrow> int \<Rightarrow> error + matrix" where
  "to_matrix tok names max_len pad =
     (case (case max_len of
              None \<Rightarrow> map_sum id int (py_max (map length names))
            | Some k \<Rightarrow> if k = 0 then map_sum id int (py_max (map length names)) else Inr k) of
        Inl e \<Rightarrow> Inl e
      | Inr max_len' \<Rightarrow>
          if max_len' < 0 then Inl ValueError
          else
            (let names_ix = replicate (length names) (replicate (nat max_len') pad) in
             case fill_rows tok names [0..<length names] names_ix of
               Inl e \<Rightarrow> Inl e
             | Inr names_ix' \<Rightarrow> Inr \<lparr>ncols = nat max_len', rows = names_ix'\<rparr>))"

text \<open>
  What line 109 leaves in a row that is long enough for \<open>name\<close>: the ids of its
  symbols, then the cells the row had there before. Used to state results.
\<close>

definition encoded_row :: "(char \<rightharpoonup> nat) \<Rightarrow> string \<Rightarrow> int list \<Rightarrow> int list" where
  "encoded_row tok name row = map (\<lambda>c. int (the (tok c))) name @ drop (length name) row"

subsection \<open>Transition function: \<open>rnn_one_step\<close> (lines 144-190)\<close>

definition rnn_num_units :: nat where
  "rnn_num_units = 64"

text \<open>
  The three Keras layers of lines 152-158 with their current weights, each as the
  function it computes on one row of its input: \<open>embed_x\<close> is the lookup in the embedding
  table, \<open>get_h_next\<close> the dense layer with \<open>relu\<close>, \<open>get_probas\<close> the dense layer with
  \<open>softmax\<close>. The layers are objects of a library; a theorem holds for every choice of
  them.
\<close>

record layers =
  embed_x :: "int \<Rightarrow> real list"
  get_h_next :: "real list \<Rightarrow> real list"
  get_probas :: "real list \<Rightarrow> real list"

text \<open>
  \<open>x_t\<close> has shape \<open>[batch]\<close> and \<open>h_t\<close> shape \<open>[batch, units]\<close>. Line 179 reshapes
  \<open>x_t\<close> to \<open>[batch, 1]\<close>, embeds it and takes index \<open>0\<close> of the second axis; line 182
  concatenates along axis \<open>1\<close>, that is row by row.
\<close>

definition rnn_one_step :: "layers \<Rightarrow> int list \<Rightarrow> real list list \<Rightarrow>
    real list list \<times> real list list" where
  "rnn_one_step ly x_t h_t =
     (let x_t_emb = map (\<lambda>r. r ! 0) (map (map (embed_x ly)) (map (\<lambda>x. [x]) x_t));
          x_and_h = map2 (@) x_t_emb h_t;
          h_next = map (get_h_next ly) x_and_h;
          output_probas = map (get_probas ly) h_next
      in (output_probas, h_next))"

subsection \<open>Trainer: unrolled loop and loss (lines 203-256, 274)\<close>

text \<open>
  The loop of lines 209-214 over the time steps \<open>ts\<close>; its state is the pair of
  \<open>predicted_probas\<close> and \<open>h_prev\<close>, returned as it is after the last step.
\<close>

fun unroll :: "layers \<Rightarrow> int list list \<Rightarrow> nat list \<Rightarrow> real list list \<Rightarrow>
    real list list list \<Rightarrow> real list list list \<times> real list list" where
  "unroll ly input_sequence [] h_prev predicted_probas = (predicted_probas, h_prev)"
| "unroll ly input_sequence (t # ts) h_prev predicted_probas =
     (let x_t = map (\<lambda>row. row ! t) input_sequence;
          (probas_next, h_next) = rnn_one_step ly x_t h_prev
      in unroll ly input_sequence ts h_next (predicted_probas @ [probas_next]))"

text \<open>
  Line 217: \<open>tf.transpose(tf.stack(predicted_probas), [1, 0, 2])\<close> turns the list of
  \<open>[batch, n_tokens]\<close> tensors, one per time step, into a \<open>[batch, time, n_tokens]\<close>
  tensor.
\<close>

definition stack_transpose :: "nat \<Rightarrow> real list list list \<Rightarrow> real list list list" where
  "stack_transpose batch_size steps = map (\<lambda>r. map (\<lambda>p. p ! r) steps) [0..<batch_size]"

text \<open>
  Lines 203-220: the tensor \<open>predicted_probas\<close> for a fed batch whose rows have
  \<open>max_length\<close> cells. Line 220, \<open>predicted_probas[:, :-1, :]\<close>, drops the last time
  step of every row.
\<close>

definition predicted_probas :: "layers \<Rightarrow> nat \<Rightarrow> int list list \<Rightarrow> real list list list" where
  "predicted_probas ly max_length input_sequence =
     (let batch_size = length input_sequence;
          h_prev = replicate batch_size (replicate rnn_num_units 0);
          (steps, h_last) = unroll ly input_sequence [0..<max_length] h_prev []
      in map butlast (stack_transpose batch_size steps))"

text \<open>Line 238: \<open>tf.one_hot\<close>; an index outside \<open>[0, depth)\<close> gives the zero vector.\<close>

definition one_hot :: "int \<Rightarrow> nat \<Rightarrow> real list" where
  "one_hot i depth = map (\<lambda>j. if int j = i then 1 else 0) [0..<depth]"

text \<open>
  A float32 scalar is a real number or not-a-number: \<open>tf.reduce_mean\<close> of a tensor
  without elements is \<open>0 / 0\<close>.
\<close>

datatype tf_scalar = Finite real | NaN

definition reduce_mean :: "real list \<Rightarrow> tf_scalar" where
  "reduce_mean xs = (if xs = [] then NaN else Finite (sum_list xs / real (length xs)))"

text \<open>
  Lines 235-254. \<open>tf.reshape(predicted_probas, [-1, n_tokens])\<close> merges the batch and
  time axes of a tensor whose last axis has \<open>n_tokens\<close> entries;
  \<open>input_sequence[:, 1:]\<close> drops the first column. \<open>categorical_crossentropy\<close> of Keras
  is a parameter: the function it computes on one target row and one prediction row.
\<close>

definition loss :: "layers \<Rightarrow> nat \<Rightarrow> nat \<Rightarrow> (real list \<Rightarrow> real list \<Rightarrow> real) \<Rightarrow>
    int list list \<Rightarrow> tf_scalar" where
  "loss ly n_tokens max_length categorical_crossentropy input_sequence =
     (let predictions_matrix = concat (predicted_probas ly max_length input_sequence);
          answers_matrix = map (\<lambda>i. one_hot i n_tokens) (concat (map (drop 1) input_sequence))
      in reduce_mean (map2 categorical_crossentropy answers_matrix predictions_matrix))"

text \<open>
  Line 274: \<open>s.run([loss, optimize], {input_sequence: batch})\<close>. The placeholder of
  line 203 has shape \<open>(None, MAX_LENGTH)\<close>, and feeding an array with another number of
  columns raises \<open>ValueError\<close>. The value fetched for \<open>loss\<close> is returned; the update of
  the weights by the optimizer is not modelled.
\<close>

definition train_step :: "layers \<Rightarrow> nat \<Rightarrow> nat \<Rightarrow> (real list \<Rightarrow> real list \<Rightarrow> real) \<Rightarrow>
    matrix \<Rightarrow> error + tf_scalar" where
  "train_step ly n_tokens max_length categorical_crossentropy batch =
     (if ncols batch \<noteq> max_length then Inl ValueError
      else Inr (loss ly n_tokens max_length categorical_crossentropy (rows batch)))"

text \<open>
  The specification's reading of one row: the hidden state after reading a prefix of
  the row from the zero state, and the distribution predicted at step \<open>t\<close>, that is
  after reading the cells \<open>0 .. t\<close>.
\<close>

definition spec_hidden_after :: "layers \<Rightarrow> int list \<Rightarrow> real list" where
  "spec_hidden_after ly xs =
     foldl (\<lambda>h x. get_h_next ly (embed_x ly x @ h)) (replicate rnn_num_units 0) xs"

definition spec_predicted_at :: "layers \<Rightarrow> int list \<Rightarrow> nat \<Rightarrow> real list" where
  "spec_predicted_at ly row t = get_probas ly (spec_hidden_after ly (take (Suc t) row))"

text \<open>
  The specification's unrolling: only the steps \<open>t = 0 .. max_length - 2\<close> are run and
  every distribution is kept.
\<close>

definition spec_predicted_probas :: "layers \<Rightarrow> nat \<Rightarrow> int list list \<Rightarrow> real list list list" where
  "spec_predicted_probas ly max_length input_sequence =
     (let batch_size = length input_sequence;
          h_prev = replicate batch_size (replicate rnn_num_units 0);
          (steps, h_last) = unroll ly input_sequence [0..<max_length - 1] h_prev []
      in stack_transpose batch_size steps)"

text \<open>
  The outputs of the transition function along one row \<open>xs\<close> from the hidden state
  \<open>h\<close>, one per cell. Used in the proofs to read the batched loop row by row.
\<close>

fun row_probas :: "layers \<Rightarrow> real list \<Rightarrow> int list \<Rightarrow> real list list" where
  "row_probas ly h [] = []"
| "row_probas ly h (x # xs) =
     (let h' = get_h_next ly (embed_x ly x @ h) in get_probas ly h' # row_probas ly h' xs)"

subsection \<open>Sampler: \<open>generate_sample\<close> (lines 293-324)\<close>

text \<open>Line 312: \<open>[token_to_id[token] for token in seed_phrase]\<close>; a missing key raises
  \<open>KeyError\<close>.\<close>

fun encode_seed :: "(char \<rightharpoonup> nat) \<Rightarrow> string \<Rightarrow> error + nat list" where
  "encode_seed tok [] = Inr []"
| "encode_seed tok (token # seed_phrase) =
     (case tok token of
        None \<Rightarrow> Inl KeyError
      | Some i \<Rightarrow>
          (case encode_seed tok seed_phrase of
             Inl e \<Rightarrow> Inl e
           | Inr ixs \<Rightarrow> Inr (i # ixs)))"

text \<open>Lines 316-317: the seed but its last id is fed, only the hidden state is kept.\<close>

definition feed_seed :: "layers \<Rightarrow> nat list \<Rightarrow> real list list \<Rightarrow> real list list" where
  "feed_seed ly x_sequence h_t =
     fold (\<lambda>ix h. snd (rnn_one_step ly [int ix] h)) (butlast x_sequence) h_t"

text \<open>
  Lines 320-322, \<open>k\<close> iterations. \<open>np.random.choice(n_tokens, p=x_probs[0])\<close> is the
  parameter \<open>choice\<close>: it gets the state \<open>g\<close> of the random generator and returns the
  drawn id with the next state. \<open>x_sequence[-1]\<close> raises \<open>IndexError\<close> on the empty list.
\<close>

fun generate_loop :: "layers \<Rightarrow> ('g \<Rightarrow> nat \<Rightarrow> real list \<Rightarrow> nat \<times> 'g) \<Rightarrow> nat \<Rightarrow> nat \<Rightarrow>
    nat list \<Rightarrow> real list list \<Rightarrow> 'g \<Rightarrow> error + nat list" where
  "generate_loop ly choice n_tokens 0 x_sequence h_t g = Inr x_sequence"
| "generate_loop ly choice n_tokens (Suc k) x_sequence h_t g =
     (if x_sequence = [] then Inl IndexError
      else
        (let (x_probs, next_h) = rnn_one_step ly [int (last x_sequence)] h_t;
             (ix, g') = choice g n_tokens (x_probs ! 0)
         in generate_loop ly choice n_tokens k (x_sequence @ [ix]) next_h g'))"

text \<open>Line 324: \<open>[tokens[ix] for ix in x_sequence if tokens[ix] != pad_token]\<close>, joined.\<close>

fun join_tokens :: "string \<Rightarrow> nat list \<Rightarrow> error + string" where
  "join_tokens tokens [] = Inr []"
| "join_tokens tokens (ix # x_sequence) =
     (if length tokens \<le> ix then Inl IndexError
      else
        (case join_tokens tokens x_sequence of
           Inl e \<Rightarrow> Inl e
         | Inr s \<Rightarrow> Inr (if tokens ! ix \<noteq> pad_token then tokens ! ix # s else s)))"

text \<open>\<open>x_sequence\<close> as it stands at line 324, after both loops.\<close>

definition generate_ids :: "layers \<Rightarrow> string \<Rightarrow> ('g \<Rightarrow> nat \<Rightarrow> real list \<Rightarrow> nat \<times> 'g) \<Rightarrow> 'g \<Rightarrow>
    string \<Rightarrow> int \<Rightarrow> error + nat list" where
  "generate_ids ly tokens choice g seed_phrase max_length =
     (case encode_seed (token_to_id tokens) seed_phrase of
        Inl e \<Rightarrow> Inl e
      | Inr x_sequence \<Rightarrow>
          (let h_t = feed_seed ly x_sequence [replicate rnn_num_units 0]
           in generate_loop ly choice (length tokens)
                (nat (max_length - int (length seed_phrase))) x_sequence h_t g))"

definition generate_sample :: "layers \<Rightarrow> string \<Rightarrow> ('g \<Rightarrow> nat \<Rightarrow> real list \<Rightarrow> nat \<times> 'g) \<Rightarrow> 'g \<Rightarrow>
    string \<Rightarrow> int \<Rightarrow> error + string" where
  "generate_sample ly tokens choice g seed_phrase max_length =
     (case generate_ids ly tokens choice g seed_phrase max_length of
        Inl e \<Rightarrow> Inl e
      | Inr x_sequence \<Rightarrow> join_tokens tokens x_sequence)"

subsection \<open>Concrete layers and a concrete random generator\<close>

text \<open>
  Used where a statement is instantiated: layers with three tokens and a generator that
  draws \<open>g mod n\<close> and counts up.
\<close>

definition example_layers :: layers where
  "example_layers = \<lparr>embed_x = (\<lambda>i. [real_of_int i]), get_h_next = (\<lambda>v. [sum_list v / 4]),
     get_probas = (\<lambda>h. [hd h, 1 - hd h, 0])\<rparr>"

definition example_choice :: "nat \<Rightarrow> nat \<Rightarrow> real list \<Rightarrow> nat \<times> nat" where
  "example_choice g n p = (g mod n, Suc g)"

text \<open>
  A corpus that passes the assertion of line 78: a file of 32 lines with 52 distinct
  letters, none of them \<open>#\<close>, and one order of its 53 tokens.
\<close>

definition example_line :: string where
  "example_line = ''abcdefghijklmnopqrstuvwxyzABCDEFGHIJKLMNOPQRSTUVWXYZ''"

definition example_file :: "string list" where
  "example_file = example_line # replicate 31 ''a''"

definition example_tokens :: string where
  "example_tokens = start_token # example_line"

text \<open>A batch of two rows and three columns, and a stand-in for the cross-entropy.\<close>

definition example_batch :: matrix where
  "example_batch = \<lparr>ncols = 3, rows = [[0, 2, 1], [0, 1, 1]]\<rparr>"

definition example_crossentropy :: "real list \<Rightarrow> real list \<Rightarrow> real" where
  "example_crossentropy target output = sum_list (map2 (\<lambda>t p. t * (1 - p)) target output)"

section \<open>Vocabulary\<close>

lemma token_to_id_upto:
  assumes "n \<le> length tokens"
  shows "dom (fold (\<lambda>i d. d(tokens ! i \<mapsto> i)) [0..<n] Map.empty) = set (take n tokens) \<and>
    (\<forall>c i. fold (\<lambda>i d. d(tokens ! i \<mapsto> i)) [0..<n] Map.empty c = Some i \<longrightarrow>
       i < n \<and> tokens ! i = c)"
  using assms
proof (induction n)
  case 0
  then show ?case by simp
next
  case (Suc n)
  define d where "d = fold (\<lambda>i d. d(tokens ! i \<mapsto> i)) [0..<n] Map.empty"
  have step: "fold (\<lambda>i d. d(tokens ! i \<mapsto> i)) [0..<Suc n] Map.empty = d(tokens ! n \<mapsto> n)"
    by (simp add: d_def)
  from Suc.prems have n: "n < length tokens" by simp
  then have "n \<le> length tokens" by simp
  from Suc.IH [OF this] have IH1: "dom d = set (take n tokens)"
    and IH2: "\<forall>c i. d c = Some i \<longrightarrow> i < n \<and> tokens ! i = c"
    unfolding d_def by blast+
  have "dom (d(tokens ! n \<mapsto> n)) = set (take (Suc n) tokens)"
    using IH1 n by (simp add: take_Suc_conv_app_nth)
  moreover have "i < Suc n \<and> tokens ! i = c" if "(d(tokens ! n \<mapsto> n)) c = Some i" for c i
  proof (cases "c = tokens ! n")
    case True
    with that show ?thesis by simp
  next
    case False
    with that have "d c = Some i" by simp
    with IH2 show ?thesis by (simp add: less_Suc_eq)
  qed
  ultimately show ?case unfolding step by blast
qed

lemma token_to_id_None_iff: "token_to_id tokens c = None \<longleftrightarrow> c \<notin> set tokens"
proof -
  have "dom (token_to_id tokens) = set tokens"
    using token_to_id_upto [of "length tokens" tokens] by (simp add: token_to_id_def)
  then show ?thesis by (metis domIff)
qed

lemma token_to_id_Some:
  "token_to_id tokens c = Some i \<Longrightarrow> i < length tokens \<and> tokens ! i = c"
  using token_to_id_upto [of "length tokens" tokens] by (simp add: token_to_id_def)

section \<open>Properties of the Batcher\<close>

subsection \<open>Auxiliary facts\<close>

lemma py_max_Inr:
  assumes "xs \<noteq> []"
  shows "py_max xs = Inr (Max (set xs))"
proof -
  from assms obtain x ys where xs: "xs = x # ys" by (cases xs) auto
  have "fold max ys x = Max (set (x # ys))"
    by (rule Max.set_eq_fold [symmetric])
  with xs show ?thesis by (simp add: py_max_def)
qed

lemma np_set_prefix_length:
  "np_set_prefix row name_ix = Inr row' \<Longrightarrow> length row' = length row"
  by (auto simp: np_set_prefix_def split: if_splits)

lemma np_set_prefix_errors:
  "np_set_prefix row name_ix = Inl e \<Longrightarrow> e = TypeError \<or> e = ValueError"
  by (auto simp: np_set_prefix_def split: if_splits)

lemma np_set_prefix_fits:
  assumes "\<forall>c\<in>set name. tok c \<noteq> None" and "length name \<le> length row"
  shows "np_set_prefix row (map tok name) = Inr (encoded_row tok name row)"
  using assms by (auto simp: np_set_prefix_def encoded_row_def)

lemma fill_rows_fits:
  assumes "distinct is"
    and "\<forall>i\<in>set is. i < length M \<and> (\<forall>c\<in>set (names ! i). tok c \<noteq> None) \<and>
           length (names ! i) \<le> length (M ! i)"
  shows "fill_rows tok names is M =
    Inr (map (\<lambda>i. if i \<in> set is then encoded_row tok (names ! i) (M ! i) else M ! i) [0..<length M])"
  using assms
proof (induction "is" arbitrary: M)
  case Nil
  then show ?case by (simp add: map_nth)
next
  case (Cons i "is")
  let ?row = "encoded_row tok (names ! i) (M ! i)"
  let ?M = "M[i := ?row]"
  from Cons.prems have i: "i < length M" "i \<notin> set is" "distinct is"
    and fit: "np_set_prefix (M ! i) (map tok (names ! i)) = Inr ?row"
    by (auto intro: np_set_prefix_fits)
  have "\<forall>j\<in>set is. j < length ?M \<and> (\<forall>c\<in>set (names ! j). tok c \<noteq> None) \<and>
           length (names ! j) \<le> length (?M ! j)"
    using Cons.prems i by (auto simp: nth_list_update)
  from Cons.IH [OF i(3) this]
  have "fill_rows tok names is ?M =
    Inr (map (\<lambda>j. if j \<in> set is then encoded_row tok (names ! j) (?M ! j) else ?M ! j) [0..<length M])"
    by simp
  also have "map (\<lambda>j. if j \<in> set is then encoded_row tok (names ! j) (?M ! j) else ?M ! j) [0..<length M]
      = map (\<lambda>j. if j \<in> set (i # is) then encoded_row tok (names ! j) (M ! j) else M ! j) [0..<length M]"
    using i by (auto simp: nth_list_update)
  finally show ?case using fit by simp
qed

lemma fill_rows_too_long:
  assumes "\<forall>i\<in>set is. i < length M \<and> (\<forall>c\<in>set (names ! i). tok c \<noteq> None)"
    and "\<forall>row\<in>set M. length row = w" and "0 < w"
    and "\<exists>i\<in>set is. w < length (names ! i)"
  shows "fill_rows tok names is M = Inl ValueError"
  using assms
proof (induction "is" arbitrary: M)
  case Nil
  then show ?case by simp
next
  case (Cons i "is")
  from Cons.prems have i: "i < length M" and voc: "\<forall>c\<in>set (names ! i). tok c \<noteq> None"
    and w: "length (M ! i) = w" by auto
  show ?case
  proof (cases "w < length (names ! i)")
    case True
    with voc w \<open>0 < w\<close> have "np_set_prefix (M ! i) (map tok (names ! i)) = Inl ValueError"
      by (auto simp: np_set_prefix_def)
    then show ?thesis by simp
  next
    case False
    let ?row = "encoded_row tok (names ! i) (M ! i)"
    from False w voc have fit: "np_set_prefix (M ! i) (map tok (names ! i)) = Inr ?row"
      by (intro np_set_prefix_fits) auto
    have len: "length ?row = w"
      using np_set_prefix_length [OF fit] w by simp
    have "\<forall>row\<in>set (M[i := ?row]). length row = w"
      using Cons.prems(2) len by (auto dest!: set_update_subset_insert [THEN subsetD])
    moreover have "\<forall>j\<in>set is. j < length (M[i := ?row]) \<and> (\<forall>c\<in>set (names ! j). tok c \<noteq> None)"
      using Cons.prems(1) by simp
    moreover have "\<exists>j\<in>set is. w < length (names ! j)"
      using Cons.prems(4) False by auto
    ultimately have "fill_rows tok names is (M[i := ?row]) = Inl ValueError"
      using Cons.IH \<open>0 < w\<close> by blast
    with fit show ?thesis by simp
  qed
qed

lemma fill_rows_absent:
  assumes "\<exists>i\<in>set is. \<exists>c\<in>set (names ! i). tok c = None"
  shows "fill_rows tok names is M = Inl TypeError \<or> fill_rows tok names is M = Inl ValueError"
  using assms
proof (induction "is" arbitrary: M)
  case Nil
  then show ?case by simp
next
  case (Cons i "is")
  show ?case
  proof (cases "np_set_prefix (M ! i) (map tok (names ! i))")
    case (Inl e)
    with np_set_prefix_errors [OF Inl] show ?thesis by auto
  next
    case (Inr row)
    then have "\<forall>c\<in>set (names ! i). tok c \<noteq> None"
      by (auto simp: np_set_prefix_def split: if_splits) force+
    with Cons.prems have "\<exists>j\<in>set is. \<exists>c\<in>set (names ! j). tok c = None" by auto
    from Cons.IH [OF this, of "M[i := row]"] Inr show ?thesis by simp
  qed
qed

lemma fill_rows_absent_fits:
  assumes "\<exists>i\<in>set is. \<exists>c\<in>set (names ! i). tok c = None"
    and "\<forall>i\<in>set is. i < length M \<and> length (names ! i) \<le> w"
    and "\<forall>row\<in>set M. length row = w"
  shows "fill_rows tok names is M = Inl TypeError"
  using assms
proof (induction "is" arbitrary: M)
  case Nil
  then show ?case by simp
next
  case (Cons i "is")
  from Cons.prems have i: "i < length M" and w: "length (M ! i) = w"
    and le: "length (names ! i) \<le> w" by auto
  show ?case
  proof (cases "\<exists>c\<in>set (names ! i). tok c = None")
    case True
    then have "None \<in> set (map tok (names ! i))" by force
    then have "np_set_prefix (M ! i) (map tok (names ! i)) = Inl TypeError"
      by (simp add: np_set_prefix_def)
    then show ?thesis by simp
  next
    case False
    let ?row = "encoded_row tok (names ! i) (M ! i)"
    from False w le have fit: "np_set_prefix (M ! i) (map tok (names ! i)) = Inr ?row"
      by (intro np_set_prefix_fits) auto
    have len: "length ?row = w"
      using np_set_prefix_length [OF fit] w by simp
    have "\<forall>row\<in>set (M[i := ?row]). length row = w"
      using Cons.prems(3) len by (auto dest!: set_update_subset_insert [THEN subsetD])
    moreover have "\<forall>j\<in>set is. j < length (M[i := ?row]) \<and> length (names ! j) \<le> w"
      using Cons.prems(2) by simp
    moreover have "\<exists>j\<in>set is. \<exists>c\<in>set (names ! j). tok c = None"
      using Cons.prems(1) False by auto
    ultimately have "fill_rows tok names is (M[i := ?row]) = Inl TypeError"
      using Cons.IH by blast
    with fit show ?thesis by simp
  qed
qed


lemma fill_rows_all:
  assumes "\<forall>name\<in>set names. (\<forall>c\<in>set name. tok c \<noteq> None) \<and> length name \<le> w"
  shows "fill_rows tok names [0..<length names] (replicate (length names) (replicate w pad)) =
    Inr (map (\<lambda>name. encoded_row tok name (replicate w pad)) names)"
proof -
  let ?M = "replicate (length names) (replicate w pad)"
  have "fill_rows tok names [0..<length names] ?M =
    Inr (map (\<lambda>i. if i \<in> set [0..<length names] then encoded_row tok (names ! i) (?M ! i) else ?M ! i)
      [0..<length ?M])"
  proof (rule fill_rows_fits)
    show "distinct [0..<length names]" by simp
    show "\<forall>i\<in>set [0..<length names]. i < length ?M \<and> (\<forall>c\<in>set (names ! i). tok c \<noteq> None) \<and>
        length (names ! i) \<le> length (?M ! i)"
    proof
      fix i assume "i \<in> set [0..<length names]"
      then have i: "i < length names" by simp
      then have "names ! i \<in> set names" by simp
      with assms have "(\<forall>c\<in>set (names ! i). tok c \<noteq> None) \<and> length (names ! i) \<le> w" by blast
      with i show "i < length ?M \<and> (\<forall>c\<in>set (names ! i). tok c \<noteq> None) \<and>
        length (names ! i) \<le> length (?M ! i)" by simp
    qed
  qed
  also have "map (\<lambda>i. if i \<in> set [0..<length names] then encoded_row tok (names ! i) (?M ! i) else ?M ! i)
      [0..<length ?M] = map (\<lambda>name. encoded_row tok name (replicate w pad)) names"
    by (rule nth_equalityI) simp_all
  finally show ?thesis .
qed

lemma to_matrix_omitted_result:
  assumes "names \<noteq> []" and "\<forall>name\<in>set names. \<forall>c\<in>set name. tok c \<noteq> None"
  shows "to_matrix tok names None pad =
    Inr \<lparr>ncols = Max (set (map length names)),
      rows = map (\<lambda>name. encoded_row tok name (replicate (Max (set (map length names))) pad)) names\<rparr>"
proof -
  let ?w = "Max (set (map length names))"
  have le: "length name \<le> ?w" if "name \<in> set names" for name
    using that by (intro Max_ge) auto
  have "py_max (map length names) = Inr ?w"
    using assms(1) by (intro py_max_Inr) simp
  moreover have "fill_rows tok names [0..<length names] (replicate (length names) (replicate ?w pad)) =
      Inr (map (\<lambda>name. encoded_row tok name (replicate ?w pad)) names)"
    using assms(2) le by (simp add: fill_rows_all)
  ultimately show ?thesis by (simp add: to_matrix_def)
qed

lemma longest_length_positive:
  assumes "names \<noteq> []"
  shows "0 < Max (set (map length names)) \<longleftrightarrow> (\<exists>name\<in>set names. name \<noteq> [])"
proof -
  have "0 < Max (set (map length names)) \<longleftrightarrow> (\<exists>n\<in>set (map length names). 0 < n)"
    using assms by (intro Max_gr_iff) simp_all
  then show ?thesis by auto
qed

subsection \<open>Results about \<open>to_matrix\<close>\<close>

text \<open>C10: an explicit \<open>max_len = 0\<close> gives exactly what an omitted \<open>max_len\<close> gives,
  matrix or exception. For a non-empty list of sequences over the vocabulary the call
  does not fail and the width of the matrix is the length of the longest sequence:
  positive as soon as one sequence is not empty, with every row of that width.\<close>

theorem to_matrix_zero_max_len_is_omitted:
  "to_matrix tok names (Some 0) pad = to_matrix tok names None pad \<and>
   (names \<noteq> [] \<and> (\<forall>name\<in>set names. \<forall>c\<in>set name. tok c \<noteq> None) \<longrightarrow>
     (\<exists>m. to_matrix tok names (Some 0) pad = Inr m \<and>
       ncols m = Max (set (map length names)) \<and>
       (0 < ncols m \<longleftrightarrow> (\<exists>name\<in>set names. name \<noteq> [])) \<and>
       length (rows m) = length names \<and>
       rows m = map (\<lambda>name. encoded_row tok name (replicate (ncols m) pad)) names \<and>
       (\<forall>i<length names. length (rows m ! i) = ncols m)))"
proof (intro conjI impI)
  show eq: "to_matrix tok names (Some 0) pad = to_matrix tok names None pad"
    by (simp add: to_matrix_def)
  assume h: "names \<noteq> [] \<and> (\<forall>name\<in>set names. \<forall>c\<in>set name. tok c \<noteq> None)"
  then have ne: "names \<noteq> []" and voc: "\<forall>name\<in>set names. \<forall>c\<in>set name. tok c \<noteq> None"
    by blast+
  let ?w = "Max (set (map length names))"
  let ?m = "\<lparr>ncols = ?w, rows = map (\<lambda>name. encoded_row tok name (replicate ?w pad)) names\<rparr>"
  have le: "length name \<le> ?w" if "name \<in> set names" for name
    using that by (intro Max_ge) auto
  have res: "to_matrix tok names (Some 0) pad = Inr ?m"
    unfolding eq using ne voc by (rule to_matrix_omitted_result)
  have pos: "0 < ?w \<longleftrightarrow> (\<exists>name\<in>set names. name \<noteq> [])"
    using ne by (rule longest_length_positive)
  have len: "length (map (\<lambda>name. encoded_row tok name (replicate ?w pad)) names ! i) = ?w"
    if "i < length names" for i
    using that le [of "names ! i"] by (simp add: encoded_row_def)
  show "\<exists>m. to_matrix tok names (Some 0) pad = Inr m \<and>
       ncols m = Max (set (map length names)) \<and>
       (0 < ncols m \<longleftrightarrow> (\<exists>name\<in>set names. name \<noteq> [])) \<and>
       length (rows m) = length names \<and>
       rows m = map (\<lambda>name. encoded_row tok name (replicate (ncols m) pad)) names \<and>
       (\<forall>i<length names. length (rows m ! i) = ncols m)"
  proof (intro exI [of _ ?m] conjI allI impI)
    show "to_matrix tok names (Some 0) pad = Inr ?m" by (rule res)
    show "ncols ?m = ?w" by simp
    show "0 < ncols ?m \<longleftrightarrow> (\<exists>name\<in>set names. name \<noteq> [])"
      using pos by simp
    show "length (rows ?m) = length names" by simp
    show "rows ?m = map (\<lambda>name. encoded_row tok name (replicate (ncols ?m) pad)) names"
      by simp
    fix i assume "i < length names"
    from len [OF this] show "length (rows ?m ! i) = ncols ?m" by simp
  qed
qed

theorem to_matrix_zero_max_len_is_omitted_witness:
  "to_matrix (token_to_id '' abcd'') ['' ab'', '' abcd''] (Some 0) 7 =
     to_matrix (token_to_id '' abcd'') ['' ab'', '' abcd''] None 7 \<and>
   to_matrix (token_to_id '' abcd'') ['' ab'', '' abcd''] (Some 0) 7 =
     Inr \<lparr>ncols = 5, rows = [[0, 1, 2, 7, 7], [0, 1, 2, 3, 4]]\<rparr> \<and>
   (\<exists>m. to_matrix (token_to_id '' abcd'') ['' ab'', '' abcd''] (Some 0) 7 = Inr m \<and>
     ncols m = Max (set (map length ['' ab'', '' abcd''])) \<and> 0 < ncols m \<and>
     length (rows m) = 2)"
proof -
  have h: "['' ab'', '' abcd''] \<noteq> [] \<and>
      (\<forall>name\<in>set ['' ab'', '' abcd'']. \<forall>c\<in>set name. token_to_id '' abcd'' c \<noteq> None)"
    by (simp add: token_to_id_None_iff)
  have ev: "to_matrix (token_to_id '' abcd'') ['' ab'', '' abcd''] (Some 0) 7 =
     Inr \<lparr>ncols = 5, rows = [[0, 1, 2, 7, 7], [0, 1, 2, 3, 4]]\<rparr>"
    by code_simp
  note inst = to_matrix_zero_max_len_is_omitted [of "token_to_id '' abcd''" "['' ab'', '' abcd'']" 7]
  from inst have eq: "to_matrix (token_to_id '' abcd'') ['' ab'', '' abcd''] (Some 0) 7 =
      to_matrix (token_to_id '' abcd'') ['' ab'', '' abcd''] None 7"
    by (rule conjunct1)
  from inst [THEN conjunct2, THEN mp, OF h]
  obtain m where m: "to_matrix (token_to_id '' abcd'') ['' ab'', '' abcd''] (Some 0) 7 = Inr m"
      "ncols m = Max (set (map length ['' ab'', '' abcd'']))"
      "0 < ncols m \<longleftrightarrow> (\<exists>name\<in>set ['' ab'', '' abcd'']. name \<noteq> [])"
      "length (rows m) = length ['' ab'', '' abcd'']"
    by (elim exE conjE)
  from m(3) have "0 < ncols m" by simp
  moreover from m(4) have "length (rows m) = 2" by simp
  ultimately have "\<exists>m. to_matrix (token_to_id '' abcd'') ['' ab'', '' abcd''] (Some 0) 7 = Inr m \<and>
     ncols m = Max (set (map length ['' ab'', '' abcd''])) \<and> 0 < ncols m \<and>
     length (rows m) = 2"
    using m(1) m(2) by (intro exI [of _ m] conjI)
  with eq ev show ?thesis by (intro conjI)
qed

text \<open>C6: with \<open>max_len\<close> omitted and a non-empty list of sequences over the
  vocabulary, \<open>to_matrix\<close> returns a matrix with one row per sequence and as many
  columns as the longest sequence has symbols; every row starts with the ids of its
  sequence and holds \<open>pad\<close> in all cells after them.\<close>

theorem to_matrix_default_width:
  assumes "names \<noteq> []" and "\<forall>name\<in>set names. \<forall>c\<in>set name. tok c \<noteq> None"
  shows "\<exists>m. to_matrix tok names None pad = Inr m \<and>
    length (rows m) = length names \<and>
    ncols m = Max (set (map length names)) \<and>
    (\<forall>i<length names.
       length (rows m ! i) = ncols m \<and>
       take (length (names ! i)) (rows m ! i) = map (\<lambda>c. int (the (tok c))) (names ! i) \<and>
       drop (length (names ! i)) (rows m ! i) = replicate (ncols m - length (names ! i)) pad)"
proof -
  let ?w = "Max (set (map length names))"
  let ?m = "\<lparr>ncols = ?w, rows = map (\<lambda>name. encoded_row tok name (replicate ?w pad)) names\<rparr>"
  have le: "length name \<le> ?w" if "name \<in> set names" for name
    using that by (intro Max_ge) auto
  have "py_max (map length names) = Inr ?w"
    using assms(1) by (intro py_max_Inr) simp
  moreover have "fill_rows tok names [0..<length names] (replicate (length names) (replicate ?w pad)) =
      Inr (rows ?m)"
    using assms(2) le by (simp add: fill_rows_all)
  ultimately have "to_matrix tok names None pad = Inr ?m"
    by (simp add: to_matrix_def)
  moreover have "length (rows ?m ! i) = ?w \<and>
       take (length (names ! i)) (rows ?m ! i) = map (\<lambda>c. int (the (tok c))) (names ! i) \<and>
       drop (length (names ! i)) (rows ?m ! i) = replicate (?w - length (names ! i)) pad"
    if "i < length names" for i
    using that le [of "names ! i"] by (simp add: encoded_row_def)
  ultimately show ?thesis by auto
qed

theorem to_matrix_default_width_witness:
  "to_matrix (token_to_id '' abcd'') ['' ab'', '' abcd''] None 7 =
     Inr \<lparr>ncols = 5, rows = [[0, 1, 2, 7, 7], [0, 1, 2, 3, 4]]\<rparr> \<and>
   (\<exists>m. to_matrix (token_to_id '' abcd'') ['' ab'', '' abcd''] None 7 = Inr m \<and>
     length (rows m) = length ['' ab'', '' abcd''] \<and>
     ncols m = Max (set (map length ['' ab'', '' abcd''])) \<and>
     (\<forall>i<length ['' ab'', '' abcd''].
       length (rows m ! i) = ncols m \<and>
       take (length (['' ab'', '' abcd''] ! i)) (rows m ! i) =
         map (\<lambda>c. int (the (token_to_id '' abcd'' c))) (['' ab'', '' abcd''] ! i) \<and>
       drop (length (['' ab'', '' abcd''] ! i)) (rows m ! i) =
         replicate (ncols m - length (['' ab'', '' abcd''] ! i)) 7))"
proof -
  have ne: "['' ab'', '' abcd''] \<noteq> []" by simp
  have voc: "\<forall>name\<in>set ['' ab'', '' abcd'']. \<forall>c\<in>set name. token_to_id '' abcd'' c \<noteq> None"
    by (simp add: token_to_id_None_iff)
  have "to_matrix (token_to_id '' abcd'') ['' ab'', '' abcd''] None 7 =
     Inr \<lparr>ncols = 5, rows = [[0, 1, 2, 7, 7], [0, 1, 2, 3, 4]]\<rparr>"
    by code_simp
  with to_matrix_default_width [OF ne voc, of 7] show ?thesis by blast
qed

text \<open>C7 (as amended): for sequences over the vocabulary and a positive \<open>max_len\<close>,
  \<open>to_matrix\<close> fails with \<open>ValueError\<close> when some sequence has more than \<open>max_len\<close>
  symbols, and otherwise returns the padded matrix of width \<open>max_len\<close>.\<close>

theorem to_matrix_max_len_fits_or_fails:
  assumes "0 < max_len" and "\<forall>name\<in>set names. \<forall>c\<in>set name. tok c \<noteq> None"
  shows "to_matrix tok names (Some max_len) pad =
    (if \<exists>name\<in>set names. max_len < int (length name) then Inl ValueError
     else Inr \<lparr>ncols = nat max_len,
       rows = map (\<lambda>name. encoded_row tok name (replicate (nat max_len) pad)) names\<rparr>)"
proof (cases "\<exists>name\<in>set names. max_len < int (length name)")
  case True
  then obtain name where "name \<in> set names" "max_len < int (length name)" by blast
  then obtain i where "i < length names" "nat max_len < length (names ! i)"
    unfolding in_set_conv_nth by (metis nat_less_iff assms(1) less_le_not_le linorder_le_cases)
  then have "\<exists>i\<in>set [0..<length names]. nat max_len < length (names ! i)" by auto
  with assms have "fill_rows tok names [0..<length names]
      (replicate (length names) (replicate (nat max_len) pad)) = Inl ValueError"
    by (intro fill_rows_too_long [where w = "nat max_len"]) auto
  with True assms(1) show ?thesis by (simp add: to_matrix_def)
next
  case False
  with assms(2) have "\<forall>name\<in>set names. (\<forall>c\<in>set name. tok c \<noteq> None) \<and> length name \<le> nat max_len"
    by auto
  from fill_rows_all [OF this] False assms(1) show ?thesis by (simp add: to_matrix_def)
qed

theorem to_matrix_max_len_fits_or_fails_witness:
  "to_matrix (token_to_id '' abcd'') ['' ab'', '' abcd''] (Some 4) 0 = Inl ValueError \<and>
   to_matrix (token_to_id '' abcd'') ['' ab'', '' abcd''] (Some 6) 0 =
     Inr \<lparr>ncols = 6, rows = [[0, 1, 2, 0, 0, 0], [0, 1, 2, 3, 4, 0]]\<rparr>"
proof -
  have voc: "\<forall>name\<in>set ['' ab'', '' abcd'']. \<forall>c\<in>set name. token_to_id '' abcd'' c \<noteq> None"
    by (simp add: token_to_id_None_iff)
  have "to_matrix (token_to_id '' abcd'') ['' ab'', '' abcd''] (Some 4) 0 = Inl ValueError"
    using to_matrix_max_len_fits_or_fails [OF _ voc, of 4 0] by simp
  moreover have "to_matrix (token_to_id '' abcd'') ['' ab'', '' abcd''] (Some 6) 0 =
     Inr \<lparr>ncols = 6, rows = map (\<lambda>name. encoded_row (token_to_id '' abcd'') name (replicate 6 0))
       ['' ab'', '' abcd'']\<rparr>"
    using to_matrix_max_len_fits_or_fails [OF _ voc, of 6 0] by simp
  moreover have "map (\<lambda>name. encoded_row (token_to_id '' abcd'') name (replicate 6 0))
       ['' ab'', '' abcd''] = [[0, 1, 2, 0, 0, 0], [0, 1, 2, 3, 4, 0]]"
    by code_simp
  ultimately show ?thesis by simp
qed

text \<open>C7 as stated fails: a sequence with a symbol outside the vocabulary makes
  \<open>to_matrix\<close> fail although no sequence is longer than \<open>max_len\<close>.\<close>

theorem to_matrix_unknown_symbol_counterexample:
  "length ''x'' \<le> 1 \<and> to_matrix (token_to_id '' ab'') [''x''] (Some 1) 0 = Inl TypeError"
  by code_simp

text \<open>Whatever the order of the tokens, a pad symbol that does not occur in the corpus
  has no id.\<close>

lemma pad_token_has_no_id:
  assumes "is_tokens names tokens" and "pad_token \<notin> set (concat names)"
  shows "token_to_id tokens pad_token = None"
  using assms by (simp add: is_tokens_def token_to_id_None_iff)

text \<open>C4, evaluated on the example corpus: the batch of all its names is padded with
  \<open>0\<close>, which is the id of the start token in this order of the tokens, while the pad
  symbol \<open>#\<close> has no id at all.\<close>

theorem padding_is_not_pad_token_id:
  "is_tokens (load_names example_file) example_tokens \<and>
   n_tokens_assert example_tokens \<and>
   MAX_LENGTH (load_names example_file) = Inr 53 \<and>
   to_matrix (token_to_id example_tokens) (load_names example_file) (Some 53) 0 =
     Inr \<lparr>ncols = 53, rows = map int [0..<53] # replicate 31 ([0, 1] @ replicate 51 0)\<rparr> \<and>
   token_to_id example_tokens pad_token = None \<and>
   token_to_id example_tokens start_token = Some 0"
  by code_simp

section \<open>Properties of the Sampler\<close>

lemma encode_seed_vocabulary:
  assumes "set seed_phrase \<subseteq> set tokens"
  shows "encode_seed (token_to_id tokens) seed_phrase =
      Inr (map (\<lambda>c. the (token_to_id tokens c)) seed_phrase)"
  using assms
proof (induction seed_phrase)
  case Nil
  then show ?case by simp
next
  case (Cons c cs)
  then have "token_to_id tokens c \<noteq> None" by (simp add: token_to_id_None_iff)
  with Cons show ?case by auto
qed

lemma encode_seed_absent:
  assumes "c \<in> set seed_phrase" and "tok c = None"
  shows "encode_seed tok seed_phrase = Inl KeyError"
  using assms
proof (induction seed_phrase)
  case Nil
  then show ?case by simp
next
  case (Cons a cs)
  show ?case
  proof (cases "tok a")
    case None
    then show ?thesis by simp
  next
    case (Some i)
    with Cons.prems have "c \<in> set cs" by auto
    with Cons.IH Cons.prems(2) Some show ?thesis by simp
  qed
qed

lemma generate_loop_appends:
  assumes "\<forall>g p. fst (choice g n p) < n" and "x_sequence \<noteq> []"
  shows "\<exists>drawn. generate_loop ly choice n k x_sequence h_t g = Inr (x_sequence @ drawn) \<and>
    length drawn = k \<and> (\<forall>ix\<in>set drawn. ix < n)"
  using assms(2)
proof (induction k arbitrary: x_sequence h_t g)
  case 0
  then show ?case by simp
next
  case (Suc k)
  obtain x_probs next_h where step: "rnn_one_step ly [int (last x_sequence)] h_t = (x_probs, next_h)"
    by (cases "rnn_one_step ly [int (last x_sequence)] h_t")
  obtain ix g' where draw: "choice g n (x_probs ! 0) = (ix, g')"
    by (cases "choice g n (x_probs ! 0)")
  from assms(1) draw have ix: "ix < n" by (metis fst_conv)
  from Suc.IH [of "x_sequence @ [ix]" next_h g'] obtain drawn where
    "generate_loop ly choice n k (x_sequence @ [ix]) next_h g' = Inr ((x_sequence @ [ix]) @ drawn)"
    "length drawn = k" "\<forall>j\<in>set drawn. j < n" by auto
  with Suc.prems step draw ix show ?case
    by (intro exI [of _ "ix # drawn"]) simp
qed

lemma join_tokens_filter:
  assumes "\<forall>ix\<in>set x_sequence. ix < length tokens"
  shows "join_tokens tokens x_sequence =
    Inr (filter (\<lambda>c. c \<noteq> pad_token) (map (\<lambda>ix. tokens ! ix) x_sequence))"
  using assms by (induction x_sequence) auto

lemma generate_loop_errors:
  "generate_loop ly choice n k x_sequence h_t g \<noteq> Inl ValueError"
  by (induction k arbitrary: x_sequence h_t g) (auto split: prod.splits)

lemma join_tokens_errors: "join_tokens tokens x_sequence \<noteq> Inl ValueError"
  by (induction x_sequence) (auto split: sum.splits)

lemma encode_seed_errors: "encode_seed tok seed_phrase \<noteq> Inl ValueError"
  by (induction seed_phrase) (auto split: sum.splits option.splits)

lemma generate_total:
  assumes "seed_phrase \<noteq> []" and "set seed_phrase \<subseteq> set tokens"
    and "\<forall>g p. fst (choice g (length tokens) p) < length tokens"
  shows "\<exists>drawn. 
    generate_ids ly tokens choice g seed_phrase max_length =
      Inr (map (\<lambda>c. the (token_to_id tokens c)) seed_phrase @ drawn) \<and>
    length drawn = nat (max_length - int (length seed_phrase)) \<and>
    generate_sample ly tokens choice g seed_phrase max_length =
      Inr (filter (\<lambda>c. c \<noteq> pad_token)
        (map (\<lambda>ix. tokens ! ix) (map (\<lambda>c. the (token_to_id tokens c)) seed_phrase @ drawn)))"
proof -
  let ?ids = "map (\<lambda>c. the (token_to_id tokens c)) seed_phrase"
  let ?k = "nat (max_length - int (length seed_phrase))"
  have enc: "encode_seed (token_to_id tokens) seed_phrase = Inr ?ids"
    using assms(2) by (rule encode_seed_vocabulary)
  have ids: "\<forall>ix\<in>set ?ids. ix < length tokens"
  proof
    fix ix assume "ix \<in> set ?ids"
    then obtain c where c: "c \<in> set seed_phrase" "ix = the (token_to_id tokens c)" by auto
    with assms(2) have "token_to_id tokens c \<noteq> None" by (auto simp: token_to_id_None_iff)
    then obtain i where "token_to_id tokens c = Some i" by blast
    with token_to_id_Some [OF this] c show "ix < length tokens" by simp
  qed
  from assms(1) have "?ids \<noteq> []" by simp
  from generate_loop_appends [where choice = choice and n = "length tokens" and ly = ly and k = ?k
      and h_t = "feed_seed ly ?ids [replicate rnn_num_units 0]" and g = g, OF assms(3) this]
  obtain drawn where drawn:
    "generate_loop ly choice (length tokens) ?k ?ids (feed_seed ly ?ids [replicate rnn_num_units 0]) g =
      Inr (?ids @ drawn)" "length drawn = ?k" "\<forall>ix\<in>set drawn. ix < length tokens"
    by blast
  have gen: "generate_ids ly tokens choice g seed_phrase max_length = Inr (?ids @ drawn)"
    using enc drawn(1) by (simp add: generate_ids_def)
  have "\<forall>ix\<in>set (?ids @ drawn). ix < length tokens"
    using ids drawn(3) by auto
  from join_tokens_filter [OF this] gen
  have "generate_sample ly tokens choice g seed_phrase max_length =
      Inr (filter (\<lambda>c. c \<noteq> pad_token) (map (\<lambda>ix. tokens ! ix) (?ids @ drawn)))"
    by (simp add: generate_sample_def)
  with gen drawn(2) show ?thesis by blast
qed

lemma generate_sample_errors:
  "generate_sample ly tokens choice g seed_phrase max_length \<noteq> Inl ValueError"
proof (cases "encode_seed (token_to_id tokens) seed_phrase")
  case (Inl e)
  with encode_seed_errors [of "token_to_id tokens" seed_phrase] show ?thesis
    by (simp add: generate_sample_def generate_ids_def)
next
  case enc: (Inr x_sequence)
  show ?thesis
  proof (cases "generate_ids ly tokens choice g seed_phrase max_length")
    case (Inl e)
    with enc generate_loop_errors [of ly choice "length tokens"
        "nat (max_length - int (length seed_phrase))" x_sequence
        "feed_seed ly x_sequence [replicate rnn_num_units 0]" g]
    show ?thesis by (simp add: generate_sample_def generate_ids_def)
  next
    case (Inr ids)
    with join_tokens_errors [of tokens ids] show ?thesis
      by (simp add: generate_sample_def)
  qed
qed

text \<open>C3: for a seed over the vocabulary that begins with the start symbol and a
  \<open>max_length\<close> of at least its length, whatever the random draws are,
  \<open>generate_sample\<close> appends exactly \<open>max_length - len(seed_phrase)\<close> drawn ids to the
  ids of the seed (a drawn pad id does not end the loop) and returns the symbols of all
  these ids with every pad symbol filtered out: at most \<open>max_length\<close> symbols, none of
  them the pad symbol.\<close>

theorem generate_sample_runs_to_budget:
  assumes "seed_phrase = start_token # rest"
    and "set seed_phrase \<subseteq> set tokens"
    and "int (length seed_phrase) \<le> max_length"
    and "\<forall>g p. fst (choice g (length tokens) p) < length tokens"
  shows "\<exists>drawn sample.
    generate_ids ly tokens choice g seed_phrase max_length =
      Inr (map (\<lambda>c. the (token_to_id tokens c)) seed_phrase @ drawn) \<and>
    int (length drawn) = max_length - int (length seed_phrase) \<and>
    generate_sample ly tokens choice g seed_phrase max_length = Inr sample \<and>
    sample = filter (\<lambda>c. c \<noteq> pad_token)
      (map (\<lambda>ix. tokens ! ix) (map (\<lambda>c. the (token_to_id tokens c)) seed_phrase @ drawn)) \<and>
    int (length sample) \<le> max_length \<and>
    pad_token \<notin> set sample"
proof -
  from assms(1) have "seed_phrase \<noteq> []" by simp
  from generate_total [where choice = choice and tokens = tokens and ly = ly and g = g
      and max_length = max_length, OF this assms(2) assms(4)]
  obtain drawn where d:
    "generate_ids ly tokens choice g seed_phrase max_length =
      Inr (map (\<lambda>c. the (token_to_id tokens c)) seed_phrase @ drawn)"
    "length drawn = nat (max_length - int (length seed_phrase))"
    "generate_sample ly tokens choice g seed_phrase max_length =
      Inr (filter (\<lambda>c. c \<noteq> pad_token)
        (map (\<lambda>ix. tokens ! ix) (map (\<lambda>c. the (token_to_id tokens c)) seed_phrase @ drawn)))"
    by blast
  let ?sample = "filter (\<lambda>c. c \<noteq> pad_token)
        (map (\<lambda>ix. tokens ! ix) (map (\<lambda>c. the (token_to_id tokens c)) seed_phrase @ drawn))"
  have len: "int (length drawn) = max_length - int (length seed_phrase)"
    using d(2) assms(3) by simp
  have "length ?sample \<le> length seed_phrase + length drawn"
    by (rule order_trans [OF length_filter_le]) simp
  with len have "int (length ?sample) \<le> max_length" by linarith
  moreover have "pad_token \<notin> set ?sample" by simp
  ultimately show ?thesis using d(1) d(3) len by blast
qed

theorem generate_sample_runs_to_budget_witness:
  "generate_ids example_layers '' #a'' example_choice 1 '' '' 4 = Inr [0, 1, 2, 0] \<and>
   generate_sample example_layers '' #a'' example_choice 1 '' '' 4 = Inr '' a ''"
proof -
  have h1: "'' '' = start_token # []" by (simp add: start_token_def)
  have h2: "set '' '' \<subseteq> set '' #a''" by simp
  have h3: "int (length '' '') \<le> 4" by simp
  have len: "length '' #a'' = 3" by simp
  have h4: "\<forall>g p. fst (example_choice g (length '' #a'') p) < length '' #a''"
    unfolding len example_choice_def by simp
  from generate_sample_runs_to_budget [where choice = example_choice and tokens = "'' #a''"
      and ly = example_layers and g = 1, OF h1 h2 h3 h4]
  obtain drawn sample where
    "generate_ids example_layers '' #a'' example_choice 1 '' '' 4 =
      Inr (map (\<lambda>c. the (token_to_id '' #a'' c)) '' '' @ drawn)"
    "generate_sample example_layers '' #a'' example_choice 1 '' '' 4 = Inr sample"
    by blast
  moreover have "generate_ids example_layers '' #a'' example_choice 1 '' '' 4 = Inr [0, 1, 2, 0]"
    by code_simp
  moreover have "generate_sample example_layers '' #a'' example_choice 1 '' '' 4 = Inr '' a ''"
    by code_simp
  ultimately show ?thesis by simp
qed

text \<open>C5 (as amended): \<open>generate_sample\<close> does not check the first symbol of the seed
  and none of its statements raises \<open>ValueError\<close>, whatever the seed is; a non-empty
  seed over the vocabulary yields a sample whether or not it begins with the start
  symbol.\<close>

theorem generate_sample_no_seed_check:
  "generate_sample ly tokens choice g seed_phrase max_length \<noteq> Inl ValueError \<and>
   (seed_phrase \<noteq> [] \<and> set seed_phrase \<subseteq> set tokens \<and>
    (\<forall>g p. fst (choice g (length tokens) p) < length tokens) \<longrightarrow>
      (\<exists>sample. generate_sample ly tokens choice g seed_phrase max_length = Inr sample))"
proof (intro conjI impI)
  show "generate_sample ly tokens choice g seed_phrase max_length \<noteq> Inl ValueError"
    by (rule generate_sample_errors)
next
  assume h: "seed_phrase \<noteq> [] \<and> set seed_phrase \<subseteq> set tokens \<and>
    (\<forall>g p. fst (choice g (length tokens) p) < length tokens)"
  then have h1: "seed_phrase \<noteq> []" and h2: "set seed_phrase \<subseteq> set tokens"
    and h3: "\<forall>g p. fst (choice g (length tokens) p) < length tokens" by blast+
  from generate_total [where choice = choice and tokens = tokens and ly = ly and g = g
      and max_length = max_length, OF h1 h2 h3]
  show "\<exists>sample. generate_sample ly tokens choice g seed_phrase max_length = Inr sample"
    by blast
qed

theorem generate_sample_no_seed_check_witness:
  "hd ''a'' \<noteq> start_token \<and>
   generate_sample example_layers '' #a'' example_choice 1 ''a'' 3 \<noteq> Inl ValueError \<and>
   (\<exists>sample. generate_sample example_layers '' #a'' example_choice 1 ''a'' 3 = Inr sample)"
proof -
  have len: "length '' #a'' = 3" by simp
  have "\<forall>g p. fst (example_choice g (length '' #a'') p) < length '' #a''"
    unfolding len example_choice_def by simp
  then have "''a'' \<noteq> [] \<and> set ''a'' \<subseteq> set '' #a'' \<and>
    (\<forall>g p. fst (example_choice g (length '' #a'') p) < length '' #a'')" by simp
  with generate_sample_no_seed_check [where choice = example_choice and tokens = "'' #a''"
      and ly = example_layers and g = 1 and seed_phrase = "''a''" and max_length = 3]
  show ?thesis by (simp add: start_token_def)
qed

text \<open>C5 as stated fails: the seed \<open>a\<close> does not begin with the start symbol and a
  sample is returned.\<close>

theorem generate_sample_other_first_symbol_counterexample:
  "hd ''a'' \<noteq> start_token \<and>
   generate_sample example_layers '' #a'' example_choice 1 ''a'' 3 = Inr ''aa''"
  by code_simp

lemma to_matrix_absent_default:
  assumes "name \<in> set names" and "c \<in> set name" and "tok c = None"
  shows "to_matrix tok names None pad = Inl TypeError"
proof -
  let ?w = "Max (set (map length names))"
  from assms(1) have "names \<noteq> []" by auto
  then have mx: "py_max (map length names) = Inr ?w"
    by (intro py_max_Inr) simp
  from assms obtain i where "i < length names" "\<exists>c\<in>set (names ! i). tok c = None"
    by (metis in_set_conv_nth)
  then have ex: "\<exists>i\<in>set [0..<length names]. \<exists>c\<in>set (names ! i). tok c = None" by auto
  have fits: "\<forall>i\<in>set [0..<length names].
      i < length (replicate (length names) (replicate ?w pad)) \<and> length (names ! i) \<le> ?w"
    by (auto intro!: Max_ge)
  have rows: "\<forall>row\<in>set (replicate (length names) (replicate ?w pad)). length row = ?w"
    by simp
  from fill_rows_absent_fits [OF ex fits rows] mx show ?thesis
    by (simp add: to_matrix_def)
qed

lemma to_matrix_absent:
  assumes "name \<in> set names" and "c \<in> set name" and "tok c = None"
  shows "to_matrix tok names max_len pad = Inl TypeError \<or>
    to_matrix tok names max_len pad = Inl ValueError"
proof -
  from assms obtain i where "i < length names" "\<exists>c\<in>set (names ! i). tok c = None"
    by (metis in_set_conv_nth)
  then have ex: "\<exists>i\<in>set [0..<length names]. \<exists>c\<in>set (names ! i). tok c = None" by auto
  have dflt: "to_matrix tok names None pad = Inl TypeError"
    using to_matrix_absent_default [where tok = tok, OF assms] .
  show ?thesis
  proof (cases max_len)
    case None
    with dflt show ?thesis by simp
  next
    case (Some k)
    show ?thesis
    proof (cases "k = 0")
      case True
      with Some have "to_matrix tok names max_len pad = to_matrix tok names None pad"
        by (simp add: to_matrix_def)
      with dflt show ?thesis by simp
    next
      case False
      from fill_rows_absent [OF ex, of "replicate (length names) (replicate (nat k) pad)"]
      show ?thesis using Some False by (auto simp: to_matrix_def)
    qed
  qed
qed

text \<open>What a symbol outside the vocabulary does in the two places that encode: the
  Sampler indexes the dictionary and fails with \<open>KeyError\<close>, a \<open>LookupError\<close>; the
  Batcher calls \<open>dict.get\<close>, and \<open>to_matrix\<close> fails with an exception that is not a
  \<open>LookupError\<close>: \<open>TypeError\<close> or \<open>ValueError\<close>, and \<open>TypeError\<close> when \<open>max_len\<close> is
  omitted.\<close>

lemma absent_symbol_errors:
  assumes "c \<notin> set tokens"
  shows "(c \<in> set seed_phrase \<longrightarrow>
      generate_sample ly tokens choice g seed_phrase max_length = Inl KeyError \<and>
      is_LookupError KeyError) \<and>
    (name \<in> set names \<and> c \<in> set name \<longrightarrow>
      (\<exists>e. to_matrix (token_to_id tokens) names max_len pad = Inl e \<and> \<not> is_LookupError e) \<and>
      to_matrix (token_to_id tokens) names None pad = Inl TypeError)"
proof (intro conjI impI)
  from assms have none: "token_to_id tokens c = None" by (simp add: token_to_id_None_iff)
  {
    assume "c \<in> set seed_phrase"
    from encode_seed_absent [where tok = "token_to_id tokens", OF this none]
    show "generate_sample ly tokens choice g seed_phrase max_length = Inl KeyError"
      by (simp add: generate_sample_def generate_ids_def)
    show "is_LookupError KeyError" by simp
  }
  {
    assume "name \<in> set names \<and> c \<in> set name"
    then have n: "name \<in> set names" "c \<in> set name" by blast+
    from to_matrix_absent [where tok = "token_to_id tokens" and max_len = max_len and pad = pad,
        OF n none]
    show "\<exists>e. to_matrix (token_to_id tokens) names max_len pad = Inl e \<and> \<not> is_LookupError e"
      by auto
    from to_matrix_absent_default [where tok = "token_to_id tokens", OF n none]
    show "to_matrix (token_to_id tokens) names None pad = Inl TypeError" .
  }
qed

text \<open>C8, evaluated for the symbol \<open>x\<close> outside the vocabulary: the Sampler raises
  \<open>KeyError\<close>, while \<open>to_matrix\<close> raises \<open>TypeError\<close>, which is not a \<open>LookupError\<close>.\<close>

theorem to_matrix_absent_symbol_raises_TypeError:
  "CHR ''x'' \<notin> set '' #a'' \<and>
   generate_sample example_layers '' #a'' example_choice 1 '' x'' 3 = Inl KeyError \<and>
   is_LookupError KeyError \<and>
   to_matrix (token_to_id '' #a'') ['' ax''] None 0 = Inl TypeError \<and>
   \<not> is_LookupError TypeError"
proof -
  have x: "CHR ''x'' \<notin> set '' #a''" by simp
  from absent_symbol_errors [OF x, of "'' x''" example_layers example_choice 1 3
      "'' ax''" "['' ax'']" None 0]
  show ?thesis by simp
qed

section \<open>Properties of the Trainer\<close>

lemma rnn_one_step_rows:
  "rnn_one_step ly x_t h_t =
     (map (get_probas ly) (map (get_h_next ly) (map2 (@) (map (embed_x ly) x_t) h_t)),
      map (get_h_next ly) (map2 (@) (map (embed_x ly) x_t) h_t))"
  by (simp add: rnn_one_step_def Let_def comp_def)

lemma unroll_acc:
  "unroll ly inp ts h acc = (acc @ fst (unroll ly inp ts h []), snd (unroll ly inp ts h []))"
proof (induction ts arbitrary: h acc)
  case Nil
  then show ?case by simp
next
  case (Cons t ts)
  obtain p h' where step: "rnn_one_step ly (map (\<lambda>row. row ! t) inp) h = (p, h')"
    by (cases "rnn_one_step ly (map (\<lambda>row. row ! t) inp) h")
  have "unroll ly inp (t # ts) h acc = unroll ly inp ts h' (acc @ [p])"
    using step by simp
  also have "\<dots> = ((acc @ [p]) @ fst (unroll ly inp ts h' []), snd (unroll ly inp ts h' []))"
    by (rule Cons.IH)
  also have "unroll ly inp ts h' [p] = ([p] @ fst (unroll ly inp ts h' []), snd (unroll ly inp ts h' []))"
    by (rule Cons.IH)
  then have "((acc @ [p]) @ fst (unroll ly inp ts h' []), snd (unroll ly inp ts h' [])) =
      (acc @ fst (unroll ly inp (t # ts) h []), snd (unroll ly inp (t # ts) h []))"
    using step by simp
  finally show ?case .
qed

lemma unroll_append:
  "unroll ly inp (ts @ us) h acc =
     unroll ly inp us (snd (unroll ly inp ts h acc)) (fst (unroll ly inp ts h acc))"
proof (induction ts arbitrary: h acc)
  case Nil
  then show ?case by simp
next
  case (Cons t ts)
  obtain p h' where step: "rnn_one_step ly (map (\<lambda>row. row ! t) inp) h = (p, h')"
    by (cases "rnn_one_step ly (map (\<lambda>row. row ! t) inp) h")
  then show ?case using Cons.IH [of h' "acc @ [p]"] by simp
qed

lemma unroll_last_step:
  "butlast (fst (unroll ly inp (ts @ [t]) h [])) = fst (unroll ly inp ts h [])"
proof -
  obtain acc h' where u: "unroll ly inp ts h [] = (acc, h')"
    by (cases "unroll ly inp ts h []")
  obtain p h'' where step: "rnn_one_step ly (map (\<lambda>row. row ! t) inp) h' = (p, h'')"
    by (cases "rnn_one_step ly (map (\<lambda>row. row ! t) inp) h'")
  have "unroll ly inp (ts @ [t]) h [] = unroll ly inp [t] h' acc"
    using u by (simp add: unroll_append)
  also have "\<dots> = (acc @ [p], h'')" using step by simp
  finally show ?thesis using u by simp
qed

lemma stack_transpose_butlast:
  "map butlast (stack_transpose batch_size steps) = stack_transpose batch_size (butlast steps)"
  by (simp add: stack_transpose_def map_butlast)

lemma length_unroll: "length (fst (unroll ly inp ts h [])) = length ts"
proof (induction ts arbitrary: h)
  case Nil
  then show ?case by simp
next
  case (Cons t ts)
  obtain p h' where step: "rnn_one_step ly (map (\<lambda>row. row ! t) inp) h = (p, h')"
    by (cases "rnn_one_step ly (map (\<lambda>row. row ! t) inp) h")
  have "unroll ly inp (t # ts) h [] = unroll ly inp ts h' [p]" using step by simp
  also have "\<dots> = ([p] @ fst (unroll ly inp ts h' []), snd (unroll ly inp ts h' []))"
    by (rule unroll_acc)
  finally show ?case using Cons.IH [of h'] by simp
qed

lemma predicted_probas_unfold:
  "predicted_probas ly max_length inp =
     map butlast (stack_transpose (length inp)
       (fst (unroll ly inp [0..<max_length] (replicate (length inp) (replicate rnn_num_units 0)) [])))"
  by (simp add: predicted_probas_def Let_def split_beta)

lemma spec_predicted_probas_unfold:
  "spec_predicted_probas ly max_length inp =
     stack_transpose (length inp)
       (fst (unroll ly inp [0..<max_length - 1] (replicate (length inp) (replicate rnn_num_units 0)) []))"
  by (simp add: spec_predicted_probas_def Let_def split_beta)

text \<open>C2: for a batch whose rows have \<open>max_length \<ge> 1\<close> cells, running the transition
  function over all columns \<open>0 .. max_length - 1\<close> and dropping the last distribution
  of every row gives the same tensor as running it over the columns
  \<open>0 .. max_length - 2\<close> only, with \<open>max_length - 1\<close> distributions per row.\<close>

theorem unroll_then_discard_is_spec_unroll:
  assumes "0 < max_length" and "\<forall>row\<in>set input_sequence. length row = max_length"
  shows "predicted_probas ly max_length input_sequence =
      spec_predicted_probas ly max_length input_sequence \<and>
    length (predicted_probas ly max_length input_sequence) = length input_sequence \<and>
    (\<forall>r<length input_sequence.
      length (predicted_probas ly max_length input_sequence ! r) = max_length - 1)"
proof -
  let ?B = "length input_sequence"
  let ?h = "replicate ?B (replicate rnn_num_units (0::real))"
  from assms(1) obtain n where n: "max_length = Suc n" by (cases max_length) auto
  have full: "[0..<max_length] = [0..<max_length - 1] @ [n]" using n by simp
  have "map butlast (stack_transpose ?B (fst (unroll ly input_sequence [0..<max_length] ?h []))) =
      stack_transpose ?B (fst (unroll ly input_sequence [0..<max_length - 1] ?h []))"
    unfolding stack_transpose_butlast full unroll_last_step ..
  then have eq: "predicted_probas ly max_length input_sequence =
      spec_predicted_probas ly max_length input_sequence"
    by (simp only: predicted_probas_unfold spec_predicted_probas_unfold)
  have "length (spec_predicted_probas ly max_length input_sequence) = ?B"
    by (simp add: spec_predicted_probas_unfold stack_transpose_def)
  moreover have "length (spec_predicted_probas ly max_length input_sequence ! r) = max_length - 1"
    if "r < ?B" for r
    using that by (simp add: spec_predicted_probas_unfold stack_transpose_def length_unroll)
  ultimately show ?thesis using eq by simp
qed

lemma example_spec_predicted_probas:
  "spec_predicted_probas example_layers 3 (rows example_batch) =
     [[[0, 1, 0], [1 / 2, 1 / 2, 0]], [[0, 1, 0], [1 / 4, 3 / 4, 0]]]"
  by code_simp

theorem unroll_then_discard_is_spec_unroll_witness:
  "predicted_probas example_layers 3 (rows example_batch) =
     [[[0, 1, 0], [1 / 2, 1 / 2, 0]], [[0, 1, 0], [1 / 4, 3 / 4, 0]]] \<and>
   length (predicted_probas example_layers 3 (rows example_batch)) = 2 \<and>
   length (predicted_probas example_layers 3 (rows example_batch) ! 1) = 2"
proof -
  have h1: "(0::nat) < 3" by simp
  have h2: "\<forall>row\<in>set (rows example_batch). length row = 3" by (simp add: example_batch_def)
  have len: "length (rows example_batch) = 2" by (simp add: example_batch_def)
  from unroll_then_discard_is_spec_unroll [OF h1 h2, of example_layers]
    example_spec_predicted_probas len
  show ?thesis by simp
qed

lemma length_row_probas: "length (row_probas ly h xs) = length xs"
  by (induction xs arbitrary: h) (simp_all add: Let_def)

lemma row_probas_nth:
  "t < length xs \<Longrightarrow>
   row_probas ly h xs ! t =
     get_probas ly (foldl (\<lambda>h x. get_h_next ly (embed_x ly x @ h)) h (take (Suc t) xs))"
proof (induction xs arbitrary: h t)
  case Nil
  then show ?case by simp
next
  case (Cons x xs)
  show ?case
  proof (cases t)
    case 0
    then show ?thesis by (simp add: Let_def)
  next
    case (Suc k)
    with Cons.prems have "k < length xs" by simp
    from Cons.IH [OF this] Suc show ?thesis by (simp add: Let_def)
  qed
qed

lemma stack_transpose_unroll_row:
  assumes "length h = length inp" and "r < length inp"
  shows "stack_transpose (length inp) (fst (unroll ly inp ts h [])) ! r =
    row_probas ly (h ! r) (map (\<lambda>t. inp ! r ! t) ts)"
  using assms(1)
proof (induction ts arbitrary: h)
  case Nil
  with assms(2) show ?case by (simp add: stack_transpose_def)
next
  case (Cons t ts)
  let ?h' = "map (get_h_next ly) (map2 (@) (map (embed_x ly) (map (\<lambda>row. row ! t) inp)) h)"
  let ?p = "map (get_probas ly) ?h'"
  have step: "rnn_one_step ly (map (\<lambda>row. row ! t) inp) h = (?p, ?h')"
    by (rule rnn_one_step_rows)
  have len: "length ?h' = length inp" using Cons.prems by simp
  have hr: "?h' ! r = get_h_next ly (embed_x ly (inp ! r ! t) @ h ! r)"
    using Cons.prems assms(2) by simp
  have pr: "?p ! r = get_probas ly (?h' ! r)"
    using len assms(2) by (simp del: map_map)
  have "unroll ly inp (t # ts) h [] = unroll ly inp ts ?h' [?p]"
    using step by simp
  also have "\<dots> = ([?p] @ fst (unroll ly inp ts ?h' []), snd (unroll ly inp ts ?h' []))"
    by (rule unroll_acc)
  finally have "fst (unroll ly inp (t # ts) h []) = ?p # fst (unroll ly inp ts ?h' [])"
    by simp
  then have "stack_transpose (length inp) (fst (unroll ly inp (t # ts) h [])) ! r =
      ?p ! r # stack_transpose (length inp) (fst (unroll ly inp ts ?h' [])) ! r"
    using assms(2) by (simp add: stack_transpose_def)
  also have "stack_transpose (length inp) (fst (unroll ly inp ts ?h' [])) ! r =
      row_probas ly (?h' ! r) (map (\<lambda>t. inp ! r ! t) ts)"
    using len by (rule Cons.IH)
  finally show ?case unfolding pr hr by (simp add: Let_def)
qed

lemma predicted_probas_rows:
  assumes "\<forall>row\<in>set inp. length row = max_length"
  shows "predicted_probas ly max_length inp =
    map (\<lambda>row. map (\<lambda>t. spec_predicted_at ly row t) [0..<max_length - 1]) inp"
proof (rule nth_equalityI)
  show "length (predicted_probas ly max_length inp) =
      length (map (\<lambda>row. map (\<lambda>t. spec_predicted_at ly row t) [0..<max_length - 1]) inp)"
    by (simp add: predicted_probas_unfold stack_transpose_def)
next
  fix r assume "r < length (predicted_probas ly max_length inp)"
  then have r: "r < length inp" by (simp add: predicted_probas_unfold stack_transpose_def)
  let ?row = "inp ! r"
  let ?z = "replicate rnn_num_units (0::real)"
  from r assms have lrow: "length ?row = max_length" by simp
  then have cols: "map (\<lambda>t. ?row ! t) [0..<max_length] = ?row"
    by (metis map_nth)
  have "stack_transpose (length inp)
      (fst (unroll ly inp [0..<max_length] (replicate (length inp) ?z) [])) ! r =
      row_probas ly (replicate (length inp) ?z ! r) (map (\<lambda>t. ?row ! t) [0..<max_length])"
    by (rule stack_transpose_unroll_row) (simp_all add: r)
  then have row: "predicted_probas ly max_length inp ! r = butlast (row_probas ly ?z ?row)"
    using r cols by (simp add: predicted_probas_unfold stack_transpose_def)
  have "butlast (row_probas ly ?z ?row) =
      map (\<lambda>t. spec_predicted_at ly ?row t) [0..<max_length - 1]"
  proof (rule nth_equalityI)
    show "length (butlast (row_probas ly ?z ?row)) =
        length (map (\<lambda>t. spec_predicted_at ly ?row t) [0..<max_length - 1])"
      by (simp add: length_row_probas lrow)
  next
    fix t assume "t < length (butlast (row_probas ly ?z ?row))"
    then have t: "t < max_length - 1" by (simp add: length_row_probas lrow)
    then have "t < length ?row" using lrow by simp
    from row_probas_nth [OF this, of ly ?z] t
    show "butlast (row_probas ly ?z ?row) ! t =
        map (\<lambda>t. spec_predicted_at ly ?row t) [0..<max_length - 1] ! t"
      by (simp add: nth_butlast length_row_probas lrow spec_predicted_at_def spec_hidden_after_def)
  qed
  with row r show "predicted_probas ly max_length inp ! r =
      map (\<lambda>row. map (\<lambda>t. spec_predicted_at ly row t) [0..<max_length - 1]) inp ! r"
    by simp
qed

lemma drop_first_column:
  assumes "length row = max_length"
  shows "drop 1 row = map (\<lambda>t. row ! Suc t) [0..<max_length - 1]"
  by (rule nth_equalityI) (simp_all add: assms)

lemma zip_concat_map:
  assumes "\<forall>x\<in>set xs. length (f x) = length (g x)"
  shows "zip (concat (map f xs)) (concat (map g xs)) = concat (map (\<lambda>x. zip (f x) (g x)) xs)"
  using assms by (induction xs) simp_all

lemma sum_list_concat_map_upt:
  "sum_list (concat (map (\<lambda>x. map (F x) [0..<n]) xs)) =
    (\<Sum>r<length xs. \<Sum>t<n. F (xs ! r) t)"
proof -
  have "sum_list (concat (map (\<lambda>x. map (F x) [0..<n]) xs)) =
      sum_list (map (\<lambda>x. \<Sum>t<n. F x t) xs)"
    by (induction xs) (simp_all add: interv_sum_list_conv_sum_set_nat atLeast0LessThan)
  also have "\<dots> = (\<Sum>r<length xs. \<Sum>t<n. F (xs ! r) t)"
    by (simp add: sum_list_sum_nth atLeast0LessThan)
  finally show ?thesis .
qed

lemma length_concat_map_upt:
  "length (concat (map (\<lambda>x. map (F x) [0..<n]) xs)) = length xs * n"
  by (induction xs) simp_all

lemma cross_entropies:
  assumes "\<forall>row\<in>set inp. length row = max_length"
  shows "map2 ce (map (\<lambda>i. one_hot i n_tokens) (concat (map (drop 1) inp)))
      (concat (predicted_probas ly max_length inp)) =
    concat (map (\<lambda>row. map (\<lambda>t. ce (one_hot (row ! Suc t) n_tokens) (spec_predicted_at ly row t))
      [0..<max_length - 1]) inp)"
proof -
  let ?A = "\<lambda>row. map (\<lambda>t. one_hot (row ! Suc t) n_tokens) [0..<max_length - 1]"
  let ?P = "\<lambda>row. map (\<lambda>t. spec_predicted_at ly row t) [0..<max_length - 1]"
  have "map (drop 1) inp = map (\<lambda>row. map (\<lambda>t. row ! Suc t) [0..<max_length - 1]) inp"
    using assms by (intro map_cong refl drop_first_column) simp
  then have "map (\<lambda>i. one_hot i n_tokens) (concat (map (drop 1) inp)) =
      map (\<lambda>i. one_hot i n_tokens)
        (concat (map (\<lambda>row. map (\<lambda>t. row ! Suc t) [0..<max_length - 1]) inp))"
    by (rule arg_cong)
  also have "\<dots> = concat (map ?A inp)"
    by (simp add: map_concat comp_def)
  finally have A: "map (\<lambda>i. one_hot i n_tokens) (concat (map (drop 1) inp)) = concat (map ?A inp)" .
  have P: "concat (predicted_probas ly max_length inp) = concat (map ?P inp)"
    using assms by (simp add: predicted_probas_rows)
  have "zip (concat (map ?A inp)) (concat (map ?P inp)) =
      concat (map (\<lambda>row. zip (?A row) (?P row)) inp)"
    by (rule zip_concat_map) simp
  then have "map2 ce (concat (map ?A inp)) (concat (map ?P inp)) =
      concat (map (\<lambda>row. map2 ce (?A row) (?P row)) inp)"
    by (simp add: map_concat comp_def)
  also have "\<dots> = concat (map (\<lambda>row. map (\<lambda>t. ce (one_hot (row ! Suc t) n_tokens)
      (spec_predicted_at ly row t)) [0..<max_length - 1]) inp)"
    by (simp add: zip_map_map zip_same_conv_map comp_def)
  finally show ?thesis unfolding A P .
qed

text \<open>C1: for a batch of \<open>R \<ge> 1\<close> rows and \<open>max_length \<ge> 2\<close> columns of token ids,
  \<open>train_step\<close> returns the sum, over all rows \<open>r\<close> and all steps
  \<open>t \<le> max_length - 2\<close>, of the cross-entropy between the one-hot encoding of the cell
  in column \<open>t + 1\<close> and the distribution predicted after reading the cells
  \<open>0 .. t\<close> of the row, divided by \<open>R * (max_length - 1)\<close>. No position is left out:
  the cells that hold padding count like all others.\<close>

theorem train_step_loss_is_mean_cross_entropy:
  assumes "rows batch \<noteq> []"
    and "ncols batch = max_length"
    and "\<forall>row\<in>set (rows batch). length row = max_length"
    and "2 \<le> max_length"
    and "\<forall>row\<in>set (rows batch). \<forall>x\<in>set row. 0 \<le> x \<and> x < int n_tokens"
  shows "train_step ly n_tokens max_length categorical_crossentropy batch =
    Inr (Finite
      ((\<Sum>r<length (rows batch). \<Sum>t<max_length - 1.
          categorical_crossentropy (one_hot (rows batch ! r ! Suc t) n_tokens)
            (spec_predicted_at ly (rows batch ! r) t))
        / real (length (rows batch) * (max_length - 1))))"
proof -
  let ?ce = "concat (map (\<lambda>row. map (\<lambda>t. categorical_crossentropy (one_hot (row ! Suc t) n_tokens)
      (spec_predicted_at ly row t)) [0..<max_length - 1]) (rows batch))"
  have len: "length ?ce = length (rows batch) * (max_length - 1)"
    by (rule length_concat_map_upt)
  with assms(1) assms(4) have "?ce \<noteq> []" by (metis length_0_conv mult_is_0 diff_is_0_eq not_numeral_le_zero
        One_nat_def Suc_1 not_less_eq_eq le_zero_eq)
  moreover have "sum_list ?ce = (\<Sum>r<length (rows batch). \<Sum>t<max_length - 1.
          categorical_crossentropy (one_hot (rows batch ! r ! Suc t) n_tokens)
            (spec_predicted_at ly (rows batch ! r) t))"
    by (rule sum_list_concat_map_upt)
  ultimately have "reduce_mean ?ce = Finite
      ((\<Sum>r<length (rows batch). \<Sum>t<max_length - 1.
          categorical_crossentropy (one_hot (rows batch ! r ! Suc t) n_tokens)
            (spec_predicted_at ly (rows batch ! r) t))
        / real (length (rows batch) * (max_length - 1)))"
    unfolding reduce_mean_def len by simp
  moreover have "loss ly n_tokens max_length categorical_crossentropy (rows batch) = reduce_mean ?ce"
    by (simp only: loss_def Let_def cross_entropies [OF assms(3)])
  ultimately show ?thesis using assms(2) by (simp add: train_step_def)
qed

lemma example_train_step:
  "train_step example_layers 3 3 example_crossentropy example_batch = Inr (Finite (7 / 16))"
  by code_simp

theorem train_step_loss_is_mean_cross_entropy_witness:
  "train_step example_layers 3 3 example_crossentropy example_batch = Inr (Finite (7 / 16)) \<and>
   (\<Sum>r<length (rows example_batch). \<Sum>t<3 - 1.
      example_crossentropy (one_hot (rows example_batch ! r ! Suc t) 3)
        (spec_predicted_at example_layers (rows example_batch ! r) t))
     / real (length (rows example_batch) * (3 - 1)) = 7 / 16"
proof -
  have h1: "rows example_batch \<noteq> []" by (simp add: example_batch_def)
  have h2: "ncols example_batch = 3" by (simp add: example_batch_def)
  have h3: "\<forall>row\<in>set (rows example_batch). length row = 3" by (simp add: example_batch_def)
  have h4: "(2::nat) \<le> 3" by simp
  have h5: "\<forall>row\<in>set (rows example_batch). \<forall>x\<in>set row. 0 \<le> x \<and> x < int 3"
    by (simp add: example_batch_def)
  from train_step_loss_is_mean_cross_entropy [OF h1 h2 h3 h4 h5, of example_layers example_crossentropy]
    example_train_step
  show ?thesis by simp
qed

lemma MAX_LENGTH_two:
  assumes "is_tokens (load_names file_lines) tokens"
    and "n_tokens_assert tokens"
    and "MAX_LENGTH (load_names file_lines) = Inr max_length"
  shows "2 \<le> max_length"
proof -
  let ?names = "load_names file_lines"
  from assms(1) have d: "distinct tokens" and st: "set tokens = set (concat ?names)"
    by (simp_all add: is_tokens_def)
  from assms(2) have "50 < length tokens" by (simp add: n_tokens_assert_def)
  with d have "1 < card (set tokens)" by (simp add: distinct_card)
  then have "\<not> set tokens \<subseteq> {start_token}"
    by (metis card_mono card.empty card_insert_disjoint empty_iff finite.emptyI finite.insertI
        not_less One_nat_def)
  then obtain c where c: "c \<in> set tokens" "c \<noteq> start_token" by auto
  with st obtain name where name: "name \<in> set ?names" "c \<in> set name" by auto
  then obtain rest where "name = start_token # rest" by (auto simp: load_names_def)
  with name(2) c(2) have "rest \<noteq> []" by auto
  with \<open>name = start_token # rest\<close> have len: "2 \<le> length name" by (cases rest) auto
  from name(1) have ne: "map length ?names \<noteq> []" by auto
  from assms(3) py_max_Inr [OF ne] have "max_length = Max (set (map length ?names))"
    by (simp add: MAX_LENGTH_def)
  moreover from name(1) have "length name \<le> Max (set (map length ?names))"
    by (intro Max_ge) auto
  ultimately show ?thesis using len by linarith
qed

text \<open>C9: in a run whose corpus passes the assertion of line 78, \<open>MAX_LENGTH\<close> is at
  least \<open>2\<close>, so a batch with fewer than two columns does not have the shape of the
  placeholder and \<open>train_step\<close> fails with \<open>ValueError\<close> instead of returning a loss.\<close>

theorem train_step_needs_two_columns:
  assumes "is_tokens (load_names file_lines) tokens"
    and "n_tokens_assert tokens"
    and "MAX_LENGTH (load_names file_lines) = Inr max_length"
    and "ncols batch < 2"
  shows "train_step ly (length tokens) max_length categorical_crossentropy batch = Inl ValueError"
proof -
  from MAX_LENGTH_two [OF assms(1-3)] assms(4) have "ncols batch \<noteq> max_length" by simp
  then show ?thesis by (simp add: train_step_def)
qed

lemma example_is_tokens: "is_tokens (load_names example_file) example_tokens"
  by code_simp
lemma example_n_tokens_assert: "n_tokens_assert example_tokens"
  by code_simp
lemma example_MAX_LENGTH: "MAX_LENGTH (load_names example_file) = Inr 53"
  by code_simp

theorem train_step_needs_two_columns_witness:
  "train_step example_layers (length example_tokens) 53 (\<lambda>t p. 0) \<lparr>ncols = 1, rows = [[0], [0]]\<rparr> =
     Inl ValueError"
proof -
  have h4: "ncols \<lparr>ncols = 1, rows = [[0], [0]]\<rparr> < 2" by simp
  from train_step_needs_two_columns [OF example_is_tokens example_n_tokens_assert example_MAX_LENGTH h4] show ?thesis .
qed

end
